theory Spec2Isabelle
  imports Main "HOL-Library.AList" "HOL-Library.Sublist"
begin

section \<open>The Elasticsearch output bot of IntelMQ\<close>

text \<open>
  A shallow embedding of \<^verbatim>\<open>intelmq/bots/outputs/elasticsearch/output.py\<close>:
  the key sanitizer \<^verbatim>\<open>replace_keys\<close>, the index resolver
  \<^verbatim>\<open>ElasticsearchOutputBot.get_index\<close> and the per-event pipeline
  \<^verbatim>\<open>ElasticsearchOutputBot.process\<close>.
\<close>

subsection \<open>Values, dictionaries, exceptions\<close>

text \<open>
  The exceptions that the modelled code can meet. \<open>RecursionError\<close> is what
  \<^verbatim>\<open>json.loads\<close> raises on text nested too deeply; \<open>TransportError\<close> stands for
  whatever the Elasticsearch client raises when a write fails.
\<close>

datatype py_error =
  TypeError | ValueError | KeyError | AttributeError | RecursionError | TransportError

text \<open>
  The values an event dictionary holds: scalars, lists and mappings. A mapping is a Python
  \<^verbatim>\<open>dict\<close>: an association list in insertion order, whose keys are strings.
\<close>

datatype jval =
    JNull
  | JBool bool
  | JInt int
  | JStr string
  | JList "jval list"
  | JObj "(string \<times> jval) list"

type_synonym dict = "(string \<times> jval) list"

text \<open>
  \<^verbatim>\<open>d[k] = v\<close> is \<^const>\<open>AList.update\<close>: an existing key keeps its position and
  takes the new value, a new key is appended. \<^verbatim>\<open>d.get(k, None)\<close>,
  \<^verbatim>\<open>k in d\<close> and \<^verbatim>\<open>d.pop(k)\<close> (which raises \<^verbatim>\<open>KeyError\<close> on an
  absent key) follow.
\<close>

definition dict_get :: "dict \<Rightarrow> string \<Rightarrow> jval" where
  "dict_get d k = (case map_of d k of None \<Rightarrow> JNull | Some v \<Rightarrow> v)"

definition dict_pop :: "dict \<Rightarrow> string \<Rightarrow> py_error + dict" where
  "dict_pop d k = (if k \<in> set (map fst d) then Inr (AList.delete k d) else Inl KeyError)"

text \<open>
  A well-formed value has no mapping with a repeated key, at any depth: the invariant of
  Python's \<^verbatim>\<open>dict\<close>.
\<close>

fun wf_jval :: "jval \<Rightarrow> bool" where
  "wf_jval (JObj kvs) = (distinct (map fst kvs) \<and> (\<forall>kv \<in> set kvs. wf_jval (snd kv)))"
| "wf_jval (JList xs) = (\<forall>x \<in> set xs. wf_jval x)"
| "wf_jval v = True"

subsection \<open>\<^verbatim>\<open>str.replace\<close>\<close>

text \<open>
  \<^verbatim>\<open>s.replace(old, new)\<close> replaces the non-overlapping occurrences of \<open>old\<close> in
  \<open>s\<close>, scanning from the left; an empty \<open>old\<close> matches before every character and at
  the end.
\<close>

function str_replace :: "string \<Rightarrow> string \<Rightarrow> string \<Rightarrow> string" where
  "str_replace s old new =
     (if old = [] then new @ concat (map (\<lambda>c. c # new) s)
      else if s = [] then []
      else if prefix old s then new @ str_replace (drop (length old) s) old new
      else hd s # str_replace (tl s) old new)"
  by pat_completeness auto
termination
  by (relation "measure (\<lambda>(s, old, new). length s)") auto

declare str_replace.simps [simp del]

subsection \<open>\<^verbatim>\<open>replace_keys\<close> (lines 18--25)\<close>

text \<open>
  \<^verbatim>\<open>
  def replace_keys(obj, key_char='.', replacement='_'):
      if isinstance(obj, Mapping):
          replacement_obj = {}
          for key, val in obj.items():
              replacement_key = key.replace(key_char, replacement)
              replacement_obj[replacement_key] = replace_keys(val, key_char, replacement)
          return replacement_obj
      return obj
  \<close>
  Only a mapping is rebuilt; every other value, a list included, is returned as it is.
\<close>

fun replace_keys :: "jval \<Rightarrow> string \<Rightarrow> string \<Rightarrow> jval" where
  "replace_keys (JObj kvs) key_char replacement =
     JObj (fold (\<lambda>kv replacement_obj.
                   AList.update (str_replace (fst kv) key_char replacement)
                                (replace_keys (snd kv) key_char replacement) replacement_obj)
                kvs [])"
| "replace_keys obj key_char replacement = obj"

subsection \<open>Configuration (lines 34--53)\<close>

record parameters =
  elastic_index :: string
  rotate_index :: bool
  elastic_doctype :: string
  replacement_char :: string
  flatten_fields :: "string list"

subsection \<open>\<^verbatim>\<open>datetime.strptime\<close> with the format of line 90\<close>

text \<open>
  \<^verbatim>\<open>strptime\<close> turns the format \<^verbatim>\<open>%Y-%m-%dT%H:%M:%S+00:00\<close> into a regular
  expression, compiled with \<^verbatim>\<open>IGNORECASE\<close>:
  \<^verbatim>\<open>
  %Y  \d\d\d\d
  %m  1[0-2]|0[1-9]|[1-9]
  %d  3[0-1]|[1-2]\d|0[1-9]|[1-9]| [1-9]
  %H  2[0-3]|[0-1]\d|\d
  %M  [0-5]\d|\d
  %S  6[0-1]|[0-5]\d|\d
  \<close>
  A matcher returns its matches in the order in which a backtracking engine tries them,
  each with the text that it leaves. Characters are 8-bit here, and among them \<^verbatim>\<open>\d\<close>
  matches the ten digits \<^verbatim>\<open>0\<close> to \<^verbatim>\<open>9\<close>.
\<close>

type_synonym matcher = "string \<Rightarrow> (string \<times> string) list"

definition chr_in :: "string \<Rightarrow> char \<Rightarrow> bool" where
  "chr_in cs c = (c \<in> set cs)"

definition is_digit :: "char \<Rightarrow> bool" where
  "is_digit = chr_in ''0123456789''"

definition cls1 :: "(char \<Rightarrow> bool) \<Rightarrow> matcher" where
  "cls1 p s = (case s of a # r \<Rightarrow> if p a then [([a], r)] else [] | [] \<Rightarrow> [])"

definition cls2 :: "(char \<Rightarrow> bool) \<Rightarrow> (char \<Rightarrow> bool) \<Rightarrow> matcher" where
  "cls2 p q s = (case s of a # b # r \<Rightarrow> if p a \<and> q b then [([a, b], r)] else [] | _ \<Rightarrow> [])"

definition re_Y :: matcher where
  "re_Y s = (case s of a # b # c # d # r \<Rightarrow>
               if is_digit a \<and> is_digit b \<and> is_digit c \<and> is_digit d then [([a, b, c, d], r)] else []
             | _ \<Rightarrow> [])"

definition re_m :: matcher where
  "re_m s = cls2 (chr_in ''1'') (chr_in ''012'') s
          @ cls2 (chr_in ''0'') (chr_in ''123456789'') s
          @ cls1 (chr_in ''123456789'') s"

definition re_d :: matcher where
  "re_d s = cls2 (chr_in ''3'') (chr_in ''01'') s
          @ cls2 (chr_in ''12'') is_digit s
          @ cls2 (chr_in ''0'') (chr_in ''123456789'') s
          @ cls1 (chr_in ''123456789'') s
          @ cls2 (chr_in '' '') (chr_in ''123456789'') s"

definition re_H :: matcher where
  "re_H s = cls2 (chr_in ''2'') (chr_in ''0123'') s
          @ cls2 (chr_in ''01'') is_digit s
          @ cls1 is_digit s"

definition re_M :: matcher where
  "re_M s = cls2 (chr_in ''012345'') is_digit s @ cls1 is_digit s"

definition re_S :: matcher where
  "re_S s = cls2 (chr_in ''6'') (chr_in ''01'') s
          @ cls2 (chr_in ''012345'') is_digit s
          @ cls1 is_digit s"

text \<open>A literal of the format; the letter \<open>T\<close> also matches \<open>t\<close>, the match ignoring case.\<close>

definition lit :: "string \<Rightarrow> string \<Rightarrow> string list" where
  "lit l s = (if prefix l s then [drop (length l) s] else [])"

definition lit_T :: "string \<Rightarrow> string list" where
  "lit_T s = (case s of c # r \<Rightarrow> if c = CHR ''T'' \<or> c = CHR ''t'' then [r] else [] | [] \<Rightarrow> [])"

text \<open>
  \<^verbatim>\<open>format_regex.match(data_string)\<close>: the first match in backtracking order, with
  the six groups and the text after the match.
\<close>

definition format_regex_match ::
  "string \<Rightarrow> ((string \<times> string \<times> string \<times> string \<times> string \<times> string) \<times> string) option" where
  "format_regex_match s =
     (case [((Y, m, d, H, M, S), r12).
              (Y, r1) \<leftarrow> re_Y s, r2 \<leftarrow> lit ''-'' r1,
              (m, r3) \<leftarrow> re_m r2, r4 \<leftarrow> lit ''-'' r3,
              (d, r5) \<leftarrow> re_d r4, r6 \<leftarrow> lit_T r5,
              (H, r7) \<leftarrow> re_H r6, r8 \<leftarrow> lit '':'' r7,
              (M, r9) \<leftarrow> re_M r8, r10 \<leftarrow> lit '':'' r9,
              (S, r11) \<leftarrow> re_S r10, r12 \<leftarrow> lit ''+00:00'' r11]
      of [] \<Rightarrow> None | x # _ \<Rightarrow> Some x)"

text \<open>\<^verbatim>\<open>int(group)\<close>: decimal digits, surrounding blanks ignored.\<close>

definition digit_val :: "char \<Rightarrow> nat" where
  "digit_val c = length (takeWhile (\<lambda>d. d \<noteq> c) ''0123456789'')"

definition py_int :: "string \<Rightarrow> nat" where
  "py_int s = foldl (\<lambda>a c. 10 * a + digit_val c) 0 (filter (\<lambda>c. c \<noteq> CHR '' '') s)"

text \<open>The checks of the \<^verbatim>\<open>date\<close> and \<^verbatim>\<open>datetime\<close> constructors.\<close>

definition is_leap :: "nat \<Rightarrow> bool" where
  "is_leap y = (y mod 4 = 0 \<and> (y mod 100 \<noteq> 0 \<or> y mod 400 = 0))"

definition days_in_month :: "nat \<Rightarrow> nat \<Rightarrow> nat" where
  "days_in_month y m =
     (if m = 2 then (if is_leap y then 29 else 28)
      else if m \<in> {4, 6, 9, 11} then 30 else 31)"

definition valid_date :: "nat \<Rightarrow> nat \<Rightarrow> nat \<Rightarrow> bool" where
  "valid_date y m d = (1 \<le> y \<and> y \<le> 9999 \<and> 1 \<le> m \<and> m \<le> 12 \<and> 1 \<le> d \<and> d \<le> days_in_month y m)"

record datetime =
  year :: nat
  month :: nat
  day :: nat
  hour :: nat
  minute :: nat
  second :: nat

text \<open>
  \<^verbatim>\<open>datetime.strptime(t, '%Y-%m-%dT%H:%M:%S+00:00')\<close>: \<^verbatim>\<open>TypeError\<close> when \<open>t\<close>
  is not a string, \<^verbatim>\<open>ValueError\<close> when the text does not match, when text remains after
  the match, or when the numbers are not a date and a time of day.
\<close>

definition strptime :: "jval \<Rightarrow> py_error + datetime" where
  "strptime t =
     (case t of
        JStr s \<Rightarrow>
          (case format_regex_match s of
             None \<Rightarrow> Inl ValueError
           | Some ((Y, m, d, H, M, S), rest) \<Rightarrow>
               if rest \<noteq> [] then Inl ValueError
               else if valid_date (py_int Y) (py_int m) (py_int d)
                       \<and> py_int H \<le> 23 \<and> py_int M \<le> 59 \<and> py_int S \<le> 59
               then Inr \<lparr>year = py_int Y, month = py_int m, day = py_int d,
                         hour = py_int H, minute = py_int M, second = py_int S\<rparr>
               else Inl ValueError)
      | _ \<Rightarrow> Inl TypeError)"

text \<open>\<^verbatim>\<open>.date().isoformat()\<close>: \<^verbatim>\<open>"%04d-%02d-%02d"\<close>.\<close>

definition digit_char :: "nat \<Rightarrow> char" where
  "digit_char n = ''0123456789'' ! (n mod 10)"

fun dec :: "nat \<Rightarrow> string" where
  "dec n = (if n < 10 then [digit_char n] else dec (n div 10) @ [digit_char n])"

declare dec.simps [simp del]

definition zfill :: "nat \<Rightarrow> string \<Rightarrow> string" where
  "zfill w s = replicate (w - length s) (CHR ''0'') @ s"

definition date_isoformat :: "datetime \<Rightarrow> string" where
  "date_isoformat dt =
     zfill 4 (dec (year dt)) @ ''-'' @ zfill 2 (dec (month dt)) @ ''-'' @ zfill 2 (dec (day dt))"

subsection \<open>\<^verbatim>\<open>get_index\<close> (lines 71--102)\<close>

text \<open>
  The loop of lines 88--95 over the two candidates: the first one that parses gives the
  date and ends the loop; \<^verbatim>\<open>TypeError\<close> and \<^verbatim>\<open>ValueError\<close> are caught and the loop
  goes on with \<^verbatim>\<open>event_date = None\<close>; any other exception leaves the function.
\<close>

fun try_dates :: "jval list \<Rightarrow> py_error + string option" where
  "try_dates [] = Inr None"
| "try_dates (t # ts) =
     (case strptime t of
        Inr dt \<Rightarrow> Inr (Some (date_isoformat dt))
      | Inl TypeError \<Rightarrow> try_dates ts
      | Inl ValueError \<Rightarrow> try_dates ts
      | Inl e \<Rightarrow> Inl e)"

text \<open>
  \<^verbatim>\<open>event_date or default\<close>: \<^verbatim>\<open>None\<close> and the empty string are false. The
  parameter \<^verbatim>\<open>default\<close> is \<open>dflt\<close> here.
\<close>

definition py_or :: "string option \<Rightarrow> string \<Rightarrow> string" where
  "py_or event_date dflt =
     (case event_date of None \<Rightarrow> dflt | Some s \<Rightarrow> if s = [] then dflt else s)"

definition get_index :: "parameters \<Rightarrow> dict \<Rightarrow> string \<Rightarrow> py_error + string" where
  "get_index self event_dict dflt =
     (if rotate_index self then
        (case try_dates [dict_get event_dict ''time_source'',
                         dict_get event_dict ''time_observation''] of
           Inl e \<Rightarrow> Inl e
         | Inr event_date \<Rightarrow> Inr (elastic_index self @ ''-'' @ py_or event_date dflt))
      else Inr (elastic_index self))"

subsection \<open>\<^verbatim>\<open>process\<close> (lines 104--128)\<close>

text \<open>
  \<^verbatim>\<open>json.loads\<close> is a parameter \<open>loads\<close> of the model: \<open>Inr v\<close> when the text
  decodes to \<open>v\<close>, \<open>Inl e\<close> when it raises \<open>e\<close>. Line 115 catches \<^verbatim>\<open>ValueError\<close>,
  which a \<^verbatim>\<open>JSONDecodeError\<close> is; any other exception, such as the
  \<^verbatim>\<open>RecursionError\<close> that \<^verbatim>\<open>json.loads\<close> raises on deeply nested text, leaves the
  loop. Lines 110--116 compute the value that line 117 tests.
\<close>

definition decoded :: "(string \<Rightarrow> py_error + jval) \<Rightarrow> jval \<Rightarrow> py_error + jval" where
  "decoded loads val =
     (case val of
        JStr s \<Rightarrow>
          (case loads s of
             Inr v \<Rightarrow> Inr v
           | Inl ValueError \<Rightarrow> Inr val
           | Inl e \<Rightarrow> Inl e)
      | _ \<Rightarrow> Inr val)"

text \<open>One round of the loop of lines 108--120.\<close>

definition flatten_field ::
  "(string \<Rightarrow> py_error + jval) \<Rightarrow> dict \<Rightarrow> string \<Rightarrow> py_error + dict" where
  "flatten_field loads event_dict field =
     (if field \<in> set (map fst event_dict) then
        (case decoded loads (dict_get event_dict field) of
           Inl e \<Rightarrow> Inl e
         | Inr (JObj items) \<Rightarrow>
             dict_pop (fold (\<lambda>kv d. AList.update (field @ ''_'' @ fst kv) (snd kv) d)
                            items event_dict) field
         | Inr _ \<Rightarrow> Inr event_dict)
      else Inr event_dict)"

fun flatten ::
  "(string \<Rightarrow> py_error + jval) \<Rightarrow> dict \<Rightarrow> string list \<Rightarrow> py_error + dict" where
  "flatten loads event_dict [] = Inr event_dict"
| "flatten loads event_dict (field # more_fields) =
     (case flatten_field loads event_dict field of
        Inl e \<Rightarrow> Inl e
      | Inr event_dict' \<Rightarrow> flatten loads event_dict' more_fields)"

text \<open>
  What \<^verbatim>\<open>process\<close> does to the outside: a write to the store
  (\<^verbatim>\<open>self.es.index(index=..., doc_type=..., body=...)\<close>) and the acknowledgement
  (\<^verbatim>\<open>self.acknowledge_message()\<close>). The store is a parameter \<open>es\<close>: \<open>None\<close> when
  the write returns, \<open>Some e\<close> when it raises \<open>e\<close>. The wall-clock date
  \<^verbatim>\<open>datetime.today().date().isoformat()\<close> is the parameter \<open>today\<close>.
  The result is the exception that leaves \<^verbatim>\<open>process\<close>, if any, and the effects in
  the order in which they happened.
\<close>

datatype effect = EsIndex string string jval | Acknowledge

definition process ::
  "(string \<Rightarrow> py_error + jval) \<Rightarrow> (string \<Rightarrow> string \<Rightarrow> jval \<Rightarrow> py_error option) \<Rightarrow>
   parameters \<Rightarrow> string \<Rightarrow> dict \<Rightarrow> py_error option \<times> effect list" where
  "process loads es self today event_dict =
     (case flatten loads event_dict (flatten_fields self) of
        Inl e \<Rightarrow> (Some e, [])
      | Inr flat \<Rightarrow>
          (case replace_keys (JObj flat) ''.'' (replacement_char self) of
             JObj doc \<Rightarrow>
               (case get_index self doc today of
                  Inl e \<Rightarrow> (Some e, [])
                | Inr index \<Rightarrow>
                    (case es index (elastic_doctype self) (JObj doc) of
                       Some e \<Rightarrow> (Some e, [EsIndex index (elastic_doctype self) (JObj doc)])
                     | None \<Rightarrow>
                         (None, [EsIndex index (elastic_doctype self) (JObj doc), Acknowledge])))
           | _ \<Rightarrow> (Some AttributeError, [])))"

subsection \<open>Properties that the statements below speak about\<close>

text \<open>
  No key contains the character \<open>c\<close>: \<open>keys_clean_deep\<close> looks at every mapping of the
  value, also at those inside lists; \<open>keys_clean\<close> looks at the mappings reached from
  the top through mappings only.
\<close>

fun keys_clean_deep :: "char \<Rightarrow> jval \<Rightarrow> bool" where
  "keys_clean_deep c (JObj kvs) =
     (\<forall>kv \<in> set kvs. c \<notin> set (fst kv) \<and> keys_clean_deep c (snd kv))"
| "keys_clean_deep c (JList xs) = (\<forall>x \<in> set xs. keys_clean_deep c x)"
| "keys_clean_deep c v = True"

fun keys_clean :: "char \<Rightarrow> jval \<Rightarrow> bool" where
  "keys_clean c (JObj kvs) = (\<forall>kv \<in> set kvs. c \<notin> set (fst kv) \<and> keys_clean c (snd kv))"
| "keys_clean c v = True"

text \<open>
  The values of a mapping, in order: what is stored under its keys, and under the keys of
  the mappings below it. A value that is not a mapping is one value.
\<close>

fun leaf_values :: "jval \<Rightarrow> jval list" where
  "leaf_values (JObj kvs) = concat (map (\<lambda>kv. leaf_values (snd kv)) kvs)"
| "leaf_values v = [v]"

text \<open>No two keys of one mapping are renamed to the same key, at any depth.\<close>

fun no_collision :: "jval \<Rightarrow> string \<Rightarrow> string \<Rightarrow> bool" where
  "no_collision (JObj kvs) key_char replacement =
     (distinct (map (\<lambda>kv. str_replace (fst kv) key_char replacement) kvs) \<and>
      (\<forall>kv \<in> set kvs. no_collision (snd kv) key_char replacement))"
| "no_collision v key_char replacement = True"

text \<open>
  The format \<^verbatim>\<open>YYYY-MM-DDTHH:MM:SS+00:00\<close> in the strict sense: the six numbers of a
  date and a time of day, each written with leading zeros to its full width.
\<close>

definition utc_timestamp :: "datetime \<Rightarrow> string" where
  "utc_timestamp dt =
     zfill 4 (dec (year dt)) @ ''-'' @ zfill 2 (dec (month dt)) @ ''-'' @ zfill 2 (dec (day dt))
     @ ''T'' @ zfill 2 (dec (hour dt)) @ '':'' @ zfill 2 (dec (minute dt)) @ '':''
     @ zfill 2 (dec (second dt)) @ ''+00:00''"

definition valid_datetime :: "datetime \<Rightarrow> bool" where
  "valid_datetime dt =
     (valid_date (year dt) (month dt) (day dt) \<and> hour dt \<le> 23 \<and> minute dt \<le> 59 \<and> second dt \<le> 59)"

text \<open>The pairs of digits that write a month, a day, an hour, and a minute or a second.\<close>

definition month_digits :: "char \<Rightarrow> char \<Rightarrow> bool" where
  "month_digits a b = (a = CHR ''0'' \<and> chr_in ''123456789'' b \<or> a = CHR ''1'' \<and> chr_in ''012'' b)"

definition day_digits :: "char \<Rightarrow> char \<Rightarrow> bool" where
  "day_digits a b = (a = CHR ''0'' \<and> chr_in ''123456789'' b \<or> chr_in ''12'' a \<and> is_digit b
                     \<or> a = CHR ''3'' \<and> chr_in ''01'' b)"

definition hour_digits :: "char \<Rightarrow> char \<Rightarrow> bool" where
  "hour_digits a b = (chr_in ''01'' a \<and> is_digit b \<or> a = CHR ''2'' \<and> chr_in ''0123'' b)"

definition sixty_digits :: "char \<Rightarrow> char \<Rightarrow> bool" where
  "sixty_digits a b = (chr_in ''012345'' a \<and> is_digit b)"


subsection \<open>Sample inputs\<close>

text \<open>The defaults of \<^verbatim>\<open>init\<close>, with rotation on.\<close>

definition sample_parameters :: parameters where
  "sample_parameters =
     \<lparr>elastic_index = ''intelmq'', rotate_index = True, elastic_doctype = ''events'',
      replacement_char = ''_'', flatten_fields = [''extra'']\<rparr>"

definition sample_event :: dict where
  "sample_event =
     [(''extra'', JObj [(''x.y'', JInt 1)]),
      (''time_source'', JStr ''2023-05-01T00:00:00+00:00'')]"

definition sample_document :: jval where
  "sample_document =
     JObj [(''time_source'', JStr ''2023-05-01T00:00:00+00:00''), (''extra_x_y'', JInt 1)]"

text \<open>
  Decoders for the examples. The first rejects every text. The second knows the JSON texts
  \<^verbatim>\<open>{}\<close> and \<^verbatim>\<open>1\<close> and is used on these and on a text that is not JSON. The third
  is \<^verbatim>\<open>json.loads\<close> on a text of 2000 opening brackets, where it raises
  \<^verbatim>\<open>RecursionError\<close>, and is used on that text only.
\<close>

definition loads_fails :: "string \<Rightarrow> py_error + jval" where
  "loads_fails s = Inl ValueError"

definition loads_sample :: "string \<Rightarrow> py_error + jval" where
  "loads_sample s =
     (if s = ''{}'' then Inr (JObj []) else if s = ''1'' then Inr (JInt 1) else Inl ValueError)"

definition loads_deep :: "string \<Rightarrow> py_error + jval" where
  "loads_deep s = (if s = replicate 2000 (CHR ''['') then Inl RecursionError else Inl ValueError)"

definition es_accepts :: "string \<Rightarrow> string \<Rightarrow> jval \<Rightarrow> py_error option" where
  "es_accepts index doc_type body = None"

definition es_rejects :: "string \<Rightarrow> string \<Rightarrow> jval \<Rightarrow> py_error option" where
  "es_rejects index doc_type body = Some TransportError"

section \<open>The key sanitizer\<close>

lemma str_replace_char:
  "str_replace s [c] new = concat (map (\<lambda>x. if x = c then new else [x]) s)"
proof (induction s)
  case Nil
  show ?case by (simp add: str_replace.simps)
next
  case (Cons x xs)
  then show ?case by (auto simp: str_replace.simps [of "x # xs"])
qed

lemma str_replace_char_clean: "c \<notin> set new \<Longrightarrow> c \<notin> set (str_replace s [c] new)"
  by (auto simp: str_replace_char split: if_splits)

lemma set_update_subset: "set (AList.update k v al) \<subseteq> insert (k, v) (set al)"
  by (induction al) auto

text \<open>Every entry of the rebuilt mapping comes from an entry of the old one.\<close>

lemma set_fold_update_subset:
  "set (fold (\<lambda>kv d. AList.update (f kv) (g kv) d) kvs al)
     \<subseteq> set al \<union> (\<lambda>kv. (f kv, g kv)) ` set kvs"
proof (induction kvs arbitrary: al)
  case Nil
  show ?case by simp
next
  case (Cons kv kvs)
  have "set (fold (\<lambda>kv d. AList.update (f kv) (g kv) d) kvs (AList.update (f kv) (g kv) al))
          \<subseteq> set (AList.update (f kv) (g kv) al) \<union> (\<lambda>kv. (f kv, g kv)) ` set kvs"
    by (rule Cons.IH)
  with set_update_subset [of "f kv" "g kv" al] show ?case by auto
qed

lemma update_fresh: "k \<notin> fst ` set al \<Longrightarrow> AList.update k v al = al @ [(k, v)]"
  by (induction al) auto

text \<open>When the new keys differ from one another, the loop of lines 21--23 is a map.\<close>

lemma fold_update_distinct:
  "distinct (map f kvs) \<Longrightarrow> f ` set kvs \<inter> fst ` set al = {} \<Longrightarrow>
   fold (\<lambda>kv d. AList.update (f kv) (g kv) d) kvs al = al @ map (\<lambda>kv. (f kv, g kv)) kvs"
proof (induction kvs arbitrary: al)
  case Nil
  show ?case by simp
next
  case (Cons kv kvs)
  from Cons.prems have fresh: "f kv \<notin> fst ` set al" by auto
  from Cons.prems have "f ` set kvs \<inter> fst ` set (al @ [(f kv, g kv)]) = {}" by auto
  with Cons.prems Cons.IH [of "al @ [(f kv, g kv)]"] fresh show ?case
    by (simp add: update_fresh)
qed

lemma replace_keys_no_collision:
  "distinct (map (\<lambda>kv. str_replace (fst kv) key_char replacement) kvs) \<Longrightarrow>
   replace_keys (JObj kvs) key_char replacement =
     JObj (map (\<lambda>kv. (str_replace (fst kv) key_char replacement,
                       replace_keys (snd kv) key_char replacement)) kvs)"
  using fold_update_distinct [of "\<lambda>kv. str_replace (fst kv) key_char replacement" kvs "[]"
      "\<lambda>kv. replace_keys (snd kv) key_char replacement"]
  by simp

text \<open>
  \<^bold>\<open>C1\<close>, as stated, fails: \<^verbatim>\<open>replace_keys\<close> returns a list as it is, so the key
  \<^verbatim>\<open>b.c\<close> of a mapping inside a list keeps its dot; and a replacement that is the
  illegal character itself leaves the dot in every key.
\<close>

theorem replace_keys_deep_counterexample:
  "wf_jval (JObj [(''a'', JList [JObj [(''b.c'', JInt 1)]])]) \<and>
   \<not> keys_clean_deep (CHR ''.'')
       (replace_keys (JObj [(''a'', JList [JObj [(''b.c'', JInt 1)]])]) ''.'' ''_'') \<and>
   \<not> keys_clean_deep (CHR ''.'') (replace_keys (JObj [(''a.b'', JInt 1)]) ''.'' ''.'')"
  by (simp add: str_replace_char)

text \<open>
  \<^bold>\<open>C1\<close>, amended. When the replacement does not contain the illegal character \<open>c\<close>,
  no key of \<^verbatim>\<open>replace_keys(obj, c, replacement)\<close> that is reached from the top through
  mappings only contains \<open>c\<close>. A list is returned unchanged.
\<close>

theorem replace_keys_mapping_keys_clean:
  "c \<notin> set replacement \<Longrightarrow>
   keys_clean c (replace_keys obj [c] replacement) \<and>
   replace_keys (JList xs) [c] replacement = JList xs"
proof (induction obj "[c]" replacement rule: replace_keys.induct)
  case (1 kvs replacement)
  let ?f = "\<lambda>kv. str_replace (fst kv) [c] replacement"
  let ?g = "\<lambda>kv. replace_keys (snd kv) [c] replacement"
  have sub: "set (fold (\<lambda>kv d. AList.update (?f kv) (?g kv) d) kvs [])
               \<subseteq> (\<lambda>kv. (?f kv, ?g kv)) ` set kvs"
    using set_fold_update_subset [of ?f ?g kvs "[]"] by simp
  show ?case
  proof (simp, intro ballI)
    fix p
    assume "p \<in> set (fold (\<lambda>kv. AList.update (?f kv) (?g kv)) kvs [])"
    with sub obtain kv where kv: "kv \<in> set kvs" and p: "p = (?f kv, ?g kv)" by auto
    from kv "1.hyps" "1.prems" have "keys_clean c (?g kv)" by simp
    with p "1.prems" show "c \<notin> set (fst p) \<and> keys_clean c (snd p)"
      by (simp add: str_replace_char_clean)
  qed
qed simp_all

theorem replace_keys_mapping_keys_clean_witness:
  "CHR ''.'' \<notin> set ''_'' \<and>
   keys_clean (CHR ''.'')
     (replace_keys (JObj [(''a.b'', JObj [(''c.d'', JInt 1)]), (''l'', JList [JNull])])
        ''.'' ''_'') \<and>
   replace_keys (JObj [(''a.b'', JObj [(''c.d'', JInt 1)]), (''l'', JList [JNull])]) ''.'' ''_''
     = JObj [(''a_b'', JObj [(''c_d'', JInt 1)]), (''l'', JList [JNull])]"
  using replace_keys_mapping_keys_clean [of "CHR ''.''" "''_''"
      "JObj [(''a.b'', JObj [(''c.d'', JInt 1)]), (''l'', JList [JNull])]"]
  by (simp add: str_replace_char)

text \<open>
  \<^bold>\<open>C7\<close>, as stated, fails: the keys \<^verbatim>\<open>a.b\<close> and \<^verbatim>\<open>a_b\<close> of one mapping are
  both renamed to \<^verbatim>\<open>a_b\<close>, the second assignment overwrites the first, and the value
  \<open>1\<close> is lost.
\<close>

theorem replace_keys_values_counterexample:
  "wf_jval (JObj [(''a.b'', JInt 1), (''a_b'', JInt 2)]) \<and>
   replace_keys (JObj [(''a.b'', JInt 1), (''a_b'', JInt 2)]) ''.'' ''_''
     = JObj [(''a_b'', JInt 2)] \<and>
   set (leaf_values (replace_keys (JObj [(''a.b'', JInt 1), (''a_b'', JInt 2)]) ''.'' ''_''))
     \<noteq> set (leaf_values (JObj [(''a.b'', JInt 1), (''a_b'', JInt 2)]))"
  by (simp add: str_replace_char)

text \<open>
  \<^bold>\<open>C7\<close>, amended. When no two keys of one mapping of \<open>m\<close> are renamed to the same
  key, \<^verbatim>\<open>replace_keys\<close> changes keys only: the values of the result are the values of
  \<open>m\<close>, in the same order.
\<close>

theorem replace_keys_values:
  "no_collision m key_char replacement \<Longrightarrow>
   leaf_values (replace_keys m key_char replacement) = leaf_values m"
proof (induction m key_char replacement rule: replace_keys.induct)
  case (1 kvs key_char replacement)
  from "1.prems" have d: "distinct (map (\<lambda>kv. str_replace (fst kv) key_char replacement) kvs)"
    by simp
  have "map (\<lambda>kv. leaf_values (replace_keys (snd kv) key_char replacement)) kvs
          = map (\<lambda>kv. leaf_values (snd kv)) kvs"
    using "1.IH" "1.prems" by (intro map_cong) simp_all
  then show ?case
    by (simp only: replace_keys_no_collision [OF d] leaf_values.simps map_map o_def snd_conv)
qed simp_all

theorem replace_keys_values_witness:
  "no_collision (JObj [(''a.b'', JInt 1), (''c'', JObj [(''d.e'', JStr ''x'')])]) ''.'' ''_'' \<and>
   leaf_values (replace_keys (JObj [(''a.b'', JInt 1), (''c'', JObj [(''d.e'', JStr ''x'')])])
                  ''.'' ''_'')
     = [JInt 1, JStr ''x'']"
  using replace_keys_values [of "JObj [(''a.b'', JInt 1), (''c'', JObj [(''d.e'', JStr ''x'')])]"
      "''.''" "''_''"]
  by (simp add: str_replace_char)

section \<open>Index resolution\<close>

lemma strptime_error: "strptime t = Inl e \<Longrightarrow> e = TypeError \<or> e = ValueError"
  by (auto simp: strptime_def split: jval.splits option.splits prod.splits if_splits)

lemma date_isoformat_nonempty: "date_isoformat dt \<noteq> []"
  by (simp add: date_isoformat_def)

lemma try_dates_two:
  "try_dates [a, b] =
     Inr (case strptime a of Inr dt \<Rightarrow> Some (date_isoformat dt)
          | Inl e \<Rightarrow> (case strptime b of Inr dt \<Rightarrow> Some (date_isoformat dt) | Inl e' \<Rightarrow> None))"
  by (auto split: sum.splits py_error.splits dest: strptime_error)

lemma get_index_total: "\<exists>index. get_index self event_dict dflt = Inr index"
  by (simp add: get_index_def try_dates_two del: try_dates.simps)

subsection \<open>The strict format is accepted\<close>

text \<open>Decimal digits, written and read back.\<close>

lemma digit_char_0: "digit_char 0 = CHR ''0''"
  by (simp add: digit_char_def)

lemma dec1: "n < 10 \<Longrightarrow> dec n = [digit_char n]"
  by (subst dec.simps) simp

lemma dec2: "10 \<le> n \<Longrightarrow> n < 100 \<Longrightarrow> dec n = [digit_char (n div 10), digit_char n]"
  by (subst dec.simps) (simp add: dec1)

lemma dec3:
  assumes "100 \<le> n" "n < 1000"
  shows "dec n = [digit_char (n div 100), digit_char (n div 10), digit_char n]"
proof -
  from assms have a: "10 \<le> n div 10" "n div 10 < 100" by simp_all
  have b: "n div 10 div 10 = n div 100" by (simp add: div_mult2_eq [symmetric])
  from assms have "dec n = dec (n div 10) @ [digit_char n]" by (subst dec.simps) simp
  with dec2 [OF a] b show ?thesis by simp
qed

lemma dec4:
  assumes "1000 \<le> n" "n < 10000"
  shows "dec n = [digit_char (n div 1000), digit_char (n div 100), digit_char (n div 10), digit_char n]"
proof -
  from assms have a: "100 \<le> n div 10" "n div 10 < 1000" by simp_all
  have b: "n div 10 div 10 = n div 100" "n div 10 div 100 = n div 1000"
    by (simp_all add: div_mult2_eq [symmetric])
  from assms have "dec n = dec (n div 10) @ [digit_char n]" by (subst dec.simps) simp
  with dec3 [OF a] b show ?thesis by simp
qed


lemma zfill2: "n < 100 \<Longrightarrow> zfill 2 (dec n) = [digit_char (n div 10), digit_char n]"
proof (cases "n < 10")
  case True
  then show ?thesis by (simp add: dec1 zfill_def digit_char_0)
next
  case False
  moreover assume "n < 100"
  ultimately show ?thesis by (simp add: dec2 zfill_def)
qed

lemma zfill4:
  assumes "n < 10000"
  shows "zfill 4 (dec n)
    = [digit_char (n div 1000), digit_char (n div 100), digit_char (n div 10), digit_char n]"
proof -
  have r: "replicate 3 (CHR ''0'') = ''000''" "replicate 2 (CHR ''0'') = ''00''"
    by (simp_all add: numeral_eq_Suc)
  consider "n < 10" | "10 \<le> n" "n < 100" | "100 \<le> n" "n < 1000" | "1000 \<le> n"
    by linarith
  then show ?thesis
  proof cases
    case 1
    then show ?thesis by (simp add: dec1 zfill_def digit_char_0 r)
  next
    case 2
    then show ?thesis by (simp add: dec2 zfill_def digit_char_0 r)
  next
    case 3
    then show ?thesis by (simp add: dec3 zfill_def digit_char_0)
  next
    case 4
    with assms show ?thesis by (simp add: dec4 zfill_def)
  qed
qed


lemma digit_char_is_digit: "is_digit (digit_char n)"
proof -
  have "\<forall>k \<in> set [0..<10]. is_digit (''0123456789'' ! k)" by code_simp
  moreover have "n mod 10 \<in> set [0..<10]" by simp
  ultimately show ?thesis unfolding digit_char_def by blast
qed

lemma digit_val_digit_char: "digit_val (digit_char n) = n mod 10"
proof -
  have "\<forall>k \<in> set [0..<10]. digit_val (''0123456789'' ! k) = k" by code_simp
  moreover have "n mod 10 \<in> set [0..<10]" by simp
  ultimately show ?thesis unfolding digit_char_def by blast
qed

lemma digit_not_sep:
  assumes "is_digit b"
  shows "b \<noteq> CHR ''-''" "b \<noteq> CHR '':''" "b \<noteq> CHR ''+''" "b \<noteq> CHR ''T''" "b \<noteq> CHR ''t''"
    "b \<noteq> CHR '' ''"
  using assms by (auto simp: is_digit_def chr_in_def)

text \<open>
  One field and the literal after it: of the matches of the field, only the one that takes
  both digits lets the literal match.
\<close>

lemma step_Y:
  assumes "is_digit a" "is_digit b" "is_digit c" "is_digit d"
  shows "concat (map (\<lambda>(Y, r1). concat (map (K Y) (lit ''-'' r1)))
                     (re_Y (a # b # c # d # CHR ''-'' # r))) = K [a, b, c, d] r"
  using assms by (simp add: re_Y_def lit_def)


lemma cls2_yes: "p a \<Longrightarrow> q b \<Longrightarrow> cls2 p q (a # b # r) = [([a, b], r)]"
  by (simp add: cls2_def)

lemma cls2_no: "\<not> p a \<or> \<not> q b \<Longrightarrow> cls2 p q (a # b # r) = []"
  by (auto simp: cls2_def)

lemma cls1_yes: "p a \<Longrightarrow> cls1 p (a # r) = [([a], r)]"
  by (simp add: cls1_def)

lemma cls1_no: "\<not> p a \<Longrightarrow> cls1 p (a # r) = []"
  by (simp add: cls1_def)

lemma lit1_yes: "lit [c] (c # r) = [r]"
  by (simp add: lit_def)

lemma lit1_no: "b \<noteq> c \<Longrightarrow> lit [c] (b # r) = []"
  by (simp add: lit_def)

lemma step_m:
  assumes "month_digits a b"
  shows "concat (map (\<lambda>(m, r3). concat (map (K m) (lit ''-'' r3)))
                     (re_m (a # b # CHR ''-'' # r))) = K [a, b] r"
proof -
  from assms have b: "is_digit b" by (auto simp: month_digits_def is_digit_def chr_in_def)
  from assms consider "a = CHR ''0''" "chr_in ''123456789'' b" | "a = CHR ''1''" "chr_in ''012'' b"
    by (auto simp: month_digits_def)
  then show ?thesis
  proof cases
    case 1
    have "re_m (a # b # CHR ''-'' # r) = [([a, b], CHR ''-'' # r)]"
      using 1 by (simp add: re_m_def cls2_yes cls2_no cls1_no chr_in_def [of _ "CHR ''0''"])
    then show ?thesis by (simp add: lit1_yes)
  next
    case 2
    have "re_m (a # b # CHR ''-'' # r) = [([a, b], CHR ''-'' # r), ([a], b # CHR ''-'' # r)]"
      using 2 by (simp add: re_m_def cls2_yes cls2_no cls1_yes chr_in_def [of _ "CHR ''1''"])
    then show ?thesis using digit_not_sep [OF b] by (simp add: lit1_yes lit1_no)
  qed
qed


lemma lit_T_yes: "lit_T (CHR ''T'' # r) = [r]"
  by (simp add: lit_T_def)

lemma lit_T_no: "b \<noteq> CHR ''T'' \<Longrightarrow> b \<noteq> CHR ''t'' \<Longrightarrow> lit_T (b # r) = []"
  by (simp add: lit_T_def)

lemma step_d:
  assumes "day_digits a b"
  shows "concat (map (\<lambda>(d, r5). concat (map (K d) (lit_T r5)))
                     (re_d (a # b # CHR ''T'' # r))) = K [a, b] r"
proof -
  from assms have b: "is_digit b" by (auto simp: day_digits_def is_digit_def chr_in_def)
  from assms consider "a = CHR ''0''" "chr_in ''123456789'' b"
    | "a = CHR ''1''" | "a = CHR ''2''" | "a = CHR ''3''" "chr_in ''01'' b"
    by (auto simp: day_digits_def chr_in_def [of "''12''"])
  then show ?thesis
  proof cases
    case 1
    have "re_d (a # b # CHR ''T'' # r) = [([a, b], CHR ''T'' # r)]"
      using 1 by (simp add: re_d_def cls2_yes cls2_no cls1_no chr_in_def [of _ "CHR ''0''"])
    then show ?thesis by (simp add: lit_T_yes)
  next
    case 2
    have "re_d (a # b # CHR ''T'' # r) = [([a, b], CHR ''T'' # r), ([a], b # CHR ''T'' # r)]"
      using 2 b by (simp add: re_d_def cls2_yes cls2_no cls1_yes chr_in_def [of _ "CHR ''1''"])
    then show ?thesis using digit_not_sep [OF b] by (simp add: lit_T_yes lit_T_no)
  next
    case 3
    have "re_d (a # b # CHR ''T'' # r) = [([a, b], CHR ''T'' # r), ([a], b # CHR ''T'' # r)]"
      using 3 b by (simp add: re_d_def cls2_yes cls2_no cls1_yes chr_in_def [of _ "CHR ''2''"])
    then show ?thesis using digit_not_sep [OF b] by (simp add: lit_T_yes lit_T_no)
  next
    case 4
    have "re_d (a # b # CHR ''T'' # r) = [([a, b], CHR ''T'' # r), ([a], b # CHR ''T'' # r)]"
      using 4 by (simp add: re_d_def cls2_yes cls2_no cls1_yes chr_in_def [of _ "CHR ''3''"])
    then show ?thesis using digit_not_sep [OF b] by (simp add: lit_T_yes lit_T_no)
  qed
qed

lemma step_H:
  assumes "hour_digits a b"
  shows "concat (map (\<lambda>(H, r7). concat (map (K H) (lit '':'' r7)))
                     (re_H (a # b # CHR '':'' # r))) = K [a, b] r"
proof -
  from assms have b: "is_digit b" by (auto simp: hour_digits_def is_digit_def chr_in_def)
  from assms consider "a = CHR ''0''" | "a = CHR ''1''" | "a = CHR ''2''" "chr_in ''0123'' b"
    by (auto simp: hour_digits_def chr_in_def [of "''01''"])
  then show ?thesis
  proof cases
    case 1
    have "re_H (a # b # CHR '':'' # r) = [([a, b], CHR '':'' # r), ([a], b # CHR '':'' # r)]"
      using 1 b
      by (simp add: re_H_def cls2_yes cls2_no cls1_yes chr_in_def [of _ "CHR ''0''"] is_digit_def)
    then show ?thesis using digit_not_sep [OF b] by (simp add: lit1_yes lit1_no)
  next
    case 2
    have "re_H (a # b # CHR '':'' # r) = [([a, b], CHR '':'' # r), ([a], b # CHR '':'' # r)]"
      using 2 b
      by (simp add: re_H_def cls2_yes cls2_no cls1_yes chr_in_def [of _ "CHR ''1''"] is_digit_def)
    then show ?thesis using digit_not_sep [OF b] by (simp add: lit1_yes lit1_no)
  next
    case 3
    have "re_H (a # b # CHR '':'' # r) = [([a, b], CHR '':'' # r), ([a], b # CHR '':'' # r)]"
      using 3
      by (simp add: re_H_def cls2_yes cls2_no cls1_yes chr_in_def [of _ "CHR ''2''"] is_digit_def)
    then show ?thesis using digit_not_sep [OF b] by (simp add: lit1_yes lit1_no)
  qed
qed

lemma sixty_first:
  assumes "chr_in ''012345'' a"
  shows "is_digit a" "a \<noteq> CHR ''6''"
  using assms by (auto simp: chr_in_def is_digit_def)

lemma step_M:
  assumes "sixty_digits a b"
  shows "concat (map (\<lambda>(M, r9). concat (map (K M) (lit '':'' r9)))
                     (re_M (a # b # CHR '':'' # r))) = K [a, b] r"
proof -
  from assms have a: "chr_in ''012345'' a" and b: "is_digit b"
    by (simp_all add: sixty_digits_def)
  have "re_M (a # b # CHR '':'' # r) = [([a, b], CHR '':'' # r), ([a], b # CHR '':'' # r)]"
    using a b sixty_first(1) [OF a] by (simp add: re_M_def cls2_yes cls1_yes)
  then show ?thesis using digit_not_sep [OF b] by (simp add: lit1_yes lit1_no)
qed

lemma step_S:
  assumes "sixty_digits a b"
  shows "concat (map (\<lambda>(S, r11). map (K S) (lit ''+00:00'' r11))
                     (re_S (a # b # ''+00:00'' @ r))) = [K [a, b] r]"
proof -
  from assms have a: "chr_in ''012345'' a" and b: "is_digit b"
    by (simp_all add: sixty_digits_def)
  have six: "\<not> chr_in ''6'' a"
    using sixty_first(2) [OF a] by (simp add: chr_in_def)
  have "re_S (a # b # ''+00:00'' @ r) = [([a, b], ''+00:00'' @ r), ([a], b # ''+00:00'' @ r)]"
    using a b six sixty_first(1) [OF a] by (simp add: re_S_def cls2_yes cls2_no cls1_yes)
  moreover have "lit ''+00:00'' (''+00:00'' @ r) = [r]" by (simp add: lit_def)
  moreover have "lit ''+00:00'' (b # ''+00:00'' @ r) = []"
    using digit_not_sep [OF b] by (simp add: lit_def)
  ultimately show ?thesis by simp
qed


text \<open>The numbers of a date and a time of day are written with such digits.\<close>

lemma month_digits_of: "1 \<le> m \<Longrightarrow> m \<le> 12 \<Longrightarrow> month_digits (digit_char (m div 10)) (digit_char m)"
proof -
  have "\<forall>m \<in> set [1..<13]. month_digits (digit_char (m div 10)) (digit_char m)" by code_simp
  moreover assume "1 \<le> m" "m \<le> 12"
  then have "m \<in> set [1..<13]" by simp
  ultimately show ?thesis by blast
qed

lemma day_digits_of: "1 \<le> d \<Longrightarrow> d \<le> 31 \<Longrightarrow> day_digits (digit_char (d div 10)) (digit_char d)"
proof -
  have "\<forall>d \<in> set [1..<32]. day_digits (digit_char (d div 10)) (digit_char d)" by code_simp
  moreover assume "1 \<le> d" "d \<le> 31"
  then have "d \<in> set [1..<32]" by simp
  ultimately show ?thesis by blast
qed

lemma hour_digits_of: "h \<le> 23 \<Longrightarrow> hour_digits (digit_char (h div 10)) (digit_char h)"
proof -
  have "\<forall>h \<in> set [0..<24]. hour_digits (digit_char (h div 10)) (digit_char h)" by code_simp
  moreover assume "h \<le> 23"
  then have "h \<in> set [0..<24]" by simp
  ultimately show ?thesis by blast
qed

lemma sixty_digits_of: "n \<le> 59 \<Longrightarrow> sixty_digits (digit_char (n div 10)) (digit_char n)"
proof -
  have "\<forall>n \<in> set [0..<60]. sixty_digits (digit_char (n div 10)) (digit_char n)" by code_simp
  moreover assume "n \<le> 59"
  then have "n \<in> set [0..<60]" by simp
  ultimately show ?thesis by blast
qed



lemma digit_char_not_blank: "digit_char n \<noteq> CHR '' ''"
  by (rule digit_not_sep(6) [OF digit_char_is_digit])

lemma py_int_two:
  "a \<noteq> CHR '' '' \<Longrightarrow> b \<noteq> CHR '' '' \<Longrightarrow> py_int [a, b] = 10 * digit_val a + digit_val b"
  by (simp add: py_int_def)

lemma py_int_four:
  "a \<noteq> CHR '' '' \<Longrightarrow> b \<noteq> CHR '' '' \<Longrightarrow> c \<noteq> CHR '' '' \<Longrightarrow> d \<noteq> CHR '' '' \<Longrightarrow>
   py_int [a, b, c, d] = 10 * (10 * (10 * digit_val a + digit_val b) + digit_val c) + digit_val d"
  by (simp add: py_int_def)

lemma py_int2:
  assumes "n < 100"
  shows "py_int [digit_char (n div 10), digit_char n] = n"
proof -
  from assms have "n div 10 mod 10 = n div 10" by simp
  then have "py_int [digit_char (n div 10), digit_char n] = 10 * (n div 10) + n mod 10"
    by (simp only: py_int_two [OF digit_char_not_blank digit_char_not_blank] digit_val_digit_char)
  also have "\<dots> = n" by (rule mult_div_mod_eq)
  finally show ?thesis .
qed

lemma py_int4:
  assumes "n < 10000"
  shows "py_int [digit_char (n div 1000), digit_char (n div 100), digit_char (n div 10), digit_char n] = n"
proof -
  from assms have a: "n div 1000 mod 10 = n div 1000" by simp
  have b: "n div 100 div 10 = n div 1000" "n div 10 div 10 = n div 100"
    by (simp_all only: div_mult2_eq [symmetric] mult_numeral_left_semiring_numeral
          numeral_times_numeral mult.commute) simp_all
  have "py_int [digit_char (n div 1000), digit_char (n div 100), digit_char (n div 10), digit_char n]
      = 10 * (10 * (10 * (n div 100 div 10) + n div 100 mod 10) + n div 10 mod 10) + n mod 10"
    by (simp only: py_int_four [OF digit_char_not_blank digit_char_not_blank
          digit_char_not_blank digit_char_not_blank] digit_val_digit_char a b)
  also have "\<dots> = 10 * (10 * (n div 100) + n div 10 mod 10) + n mod 10"
    by (simp only: mult_div_mod_eq)
  also have "\<dots> = 10 * (10 * (n div 10 div 10) + n div 10 mod 10) + n mod 10"
    by (simp only: b)
  also have "\<dots> = 10 * (n div 10) + n mod 10"
    by (simp only: mult_div_mod_eq)
  also have "\<dots> = n" by (rule mult_div_mod_eq)
  finally show ?thesis .
qed


lemma step_S_end:
  assumes "sixty_digits a b"
  shows "concat (map (\<lambda>(S, r11). map (K S) (lit ''+00:00'' r11))
                     (re_S (a # b # ''+00:00''))) = [K [a, b] []]"
  using step_S [OF assms, of K "[]"] by simp

lemma days_in_month_le: "days_in_month y m \<le> 31"
  by (simp add: days_in_month_def)

lemma format_regex_match_canonical:
  assumes "valid_datetime dt"
  shows "format_regex_match (utc_timestamp dt) =
     Some ((zfill 4 (dec (year dt)), zfill 2 (dec (month dt)), zfill 2 (dec (day dt)),
            zfill 2 (dec (hour dt)), zfill 2 (dec (minute dt)), zfill 2 (dec (second dt))), [])"
proof -
  from assms have y: "year dt < 10000" and m: "1 \<le> month dt" "month dt \<le> 12"
    and d: "1 \<le> day dt" "day dt \<le> 31"
    and h: "hour dt \<le> 23" and mi: "minute dt \<le> 59" and sec: "second dt \<le> 59"
    using days_in_month_le [of "year dt" "month dt"]
    by (simp_all add: valid_datetime_def valid_date_def)
  have z: "zfill 4 (dec (year dt)) = [digit_char (year dt div 1000), digit_char (year dt div 100),
        digit_char (year dt div 10), digit_char (year dt)]"
    "zfill 2 (dec (month dt)) = [digit_char (month dt div 10), digit_char (month dt)]"
    "zfill 2 (dec (day dt)) = [digit_char (day dt div 10), digit_char (day dt)]"
    "zfill 2 (dec (hour dt)) = [digit_char (hour dt div 10), digit_char (hour dt)]"
    "zfill 2 (dec (minute dt)) = [digit_char (minute dt div 10), digit_char (minute dt)]"
    "zfill 2 (dec (second dt)) = [digit_char (second dt div 10), digit_char (second dt)]"
    using y m d h mi sec by (simp_all add: zfill2 zfill4)
  show ?thesis
    unfolding format_regex_match_def utc_timestamp_def z
    using m d h mi sec
    by (simp add: step_Y step_m step_d step_H step_M step_S_end digit_char_is_digit
          month_digits_of day_digits_of hour_digits_of sixty_digits_of)
qed

lemma strptime_canonical:
  assumes "valid_datetime dt"
  shows "strptime (JStr (utc_timestamp dt)) = Inr dt"
proof -
  from assms have y: "year dt < 10000" and m: "month dt < 100" and d: "day dt < 100"
    and h: "hour dt < 100" and mi: "minute dt < 100" and sec: "second dt < 100"
    using days_in_month_le [of "year dt" "month dt"]
    by (simp_all add: valid_datetime_def valid_date_def)
  have p: "py_int (zfill 4 (dec (year dt))) = year dt"
    "py_int (zfill 2 (dec (month dt))) = month dt"
    "py_int (zfill 2 (dec (day dt))) = day dt"
    "py_int (zfill 2 (dec (hour dt))) = hour dt"
    "py_int (zfill 2 (dec (minute dt))) = minute dt"
    "py_int (zfill 2 (dec (second dt))) = second dt"
    using y m d h mi sec by (simp_all only: zfill2 zfill4 py_int2 py_int4)
  from assms show ?thesis
    by (simp add: strptime_def format_regex_match_canonical p valid_datetime_def)
qed

lemma date_isoformat_prefix:
  "year dt < 10000 \<Longrightarrow> month dt < 100 \<Longrightarrow> day dt < 100 \<Longrightarrow>
   date_isoformat dt = take 10 (utc_timestamp dt)"
  by (simp add: date_isoformat_def utc_timestamp_def zfill2 zfill4)

subsection \<open>Examples\<close>

lemma strptime_sample:
  "\<exists>dt. strptime (JStr ''2023-05-01T00:00:00+00:00'') = Inr dt
        \<and> date_isoformat dt = ''2023-05-01''"
proof -
  have "strptime (JStr ''2023-05-01T00:00:00+00:00'')
          = Inr \<lparr>year = 2023, month = 5, day = 1, hour = 0, minute = 0, second = 0\<rparr>"
    by code_simp
  moreover
  have "date_isoformat \<lparr>year = 2023, month = 5, day = 1, hour = 0, minute = 0, second = 0\<rparr>
          = ''2023-05-01''"
    by code_simp
  ultimately show ?thesis by blast
qed

lemma strptime_mismatch: "strptime (JStr ''yesterday'') = Inl ValueError"
  by code_simp

text \<open>
  \<^bold>\<open>C3.\<close> With rotation on, \<^verbatim>\<open>get_index\<close> never raises and returns the base name, a
  hyphen and a suffix: the ISO date of \<^verbatim>\<open>time_source\<close> when that field parses against
  the format; otherwise (the field is missing, not a string, or does not parse) the ISO date of
  \<^verbatim>\<open>time_observation\<close> when that one parses; otherwise the caller's default, unchanged.
  The parse accepts every valid date and time written as \<^verbatim>\<open>YYYY-MM-DDTHH:MM:SS+00:00\<close>,
  and the ISO date is then the first ten characters of the text.
\<close>

theorem get_index_rotation:
  assumes "rotate_index self"
  shows "get_index self event_dict dflt =
           Inr (elastic_index self @ ''-'' @
                (case strptime (dict_get event_dict ''time_source'') of
                   Inr dt \<Rightarrow> date_isoformat dt
                 | Inl e \<Rightarrow>
                     (case strptime (dict_get event_dict ''time_observation'') of
                        Inr dt \<Rightarrow> date_isoformat dt
                      | Inl e' \<Rightarrow> dflt)))
         \<and> (valid_datetime t \<longrightarrow>
              strptime (JStr (utc_timestamp t)) = Inr t \<and>
              date_isoformat t = take 10 (utc_timestamp t))"
proof -
  have "valid_datetime t \<Longrightarrow> date_isoformat t = take 10 (utc_timestamp t)"
    using days_in_month_le [of "year t" "month t"]
    by (intro date_isoformat_prefix) (simp_all add: valid_datetime_def valid_date_def)
  with assms show ?thesis
    by (simp add: get_index_def try_dates_two py_or_def date_isoformat_nonempty strptime_canonical
             del: try_dates.simps split: sum.splits)
qed

theorem get_index_rotation_witness:
  "rotate_index sample_parameters \<and>
   get_index sample_parameters
     [(''time_source'', JStr ''yesterday''),
      (''time_observation'', JStr ''2023-05-01T00:00:00+00:00'')] ''2026-11-04''
     = Inr ''intelmq-2023-05-01'' \<and>
   get_index sample_parameters [(''time_source'', JStr ''yesterday'')] ''2026-11-04''
     = Inr ''intelmq-2026-11-04'' \<and>
   valid_datetime \<lparr>year = 2023, month = 5, day = 1, hour = 0, minute = 0, second = 0\<rparr> \<and>
   utc_timestamp \<lparr>year = 2023, month = 5, day = 1, hour = 0, minute = 0, second = 0\<rparr>
     = ''2023-05-01T00:00:00+00:00'' \<and>
   strptime (JStr ''2023-05-01T00:00:00+00:00'')
     = Inr \<lparr>year = 2023, month = 5, day = 1, hour = 0, minute = 0, second = 0\<rparr>"
proof -
  let ?t = "\<lparr>year = 2023, month = 5, day = 1, hour = 0, minute = 0, second = 0\<rparr>"
  have r: "rotate_index sample_parameters"
    by (simp add: sample_parameters_def)
  have none: "strptime JNull = Inl TypeError"
    by (simp add: strptime_def)
  have v: "valid_datetime ?t"
    by code_simp
  have u: "utc_timestamp ?t = ''2023-05-01T00:00:00+00:00''"
    by code_simp
  obtain dt where dt: "strptime (JStr ''2023-05-01T00:00:00+00:00'') = Inr dt"
    "date_isoformat dt = ''2023-05-01''"
    using strptime_sample by blast
  have a: "get_index sample_parameters
     [(''time_source'', JStr ''yesterday''),
      (''time_observation'', JStr ''2023-05-01T00:00:00+00:00'')] ''2026-11-04''
     = Inr ''intelmq-2023-05-01''"
    using get_index_rotation [OF r, of "[(''time_source'', JStr ''yesterday''),
        (''time_observation'', JStr ''2023-05-01T00:00:00+00:00'')]" "''2026-11-04''" ?t]
    by (simp add: dict_get_def dt strptime_mismatch sample_parameters_def)
  have b: "get_index sample_parameters [(''time_source'', JStr ''yesterday'')] ''2026-11-04''
     = Inr ''intelmq-2026-11-04''"
    using get_index_rotation [OF r, of "[(''time_source'', JStr ''yesterday'')]" "''2026-11-04''" ?t]
    by (simp add: dict_get_def strptime_mismatch none sample_parameters_def)
  have c: "strptime (JStr ''2023-05-01T00:00:00+00:00'') = Inr ?t"
    using get_index_rotation [OF r, of "[]" "[]" ?t] v u by simp
  from r a b v u c show ?thesis by blast
qed

text \<open>
  \<^bold>\<open>C8.\<close> With rotation off, \<^verbatim>\<open>get_index\<close> returns the configured base name, whatever
  the event holds.
\<close>

theorem get_index_no_rotation:
  "\<not> rotate_index self \<Longrightarrow> get_index self event_dict dflt = Inr (elastic_index self)"
  by (simp add: get_index_def)

theorem get_index_no_rotation_witness:
  "\<not> rotate_index (sample_parameters\<lparr>rotate_index := False\<rparr>) \<and>
   get_index (sample_parameters\<lparr>rotate_index := False\<rparr>)
     [(''time_source'', JStr ''2023-05-01T00:00:00+00:00'')] ''2026-11-04'' = Inr ''intelmq''"
  using get_index_no_rotation [of "sample_parameters\<lparr>rotate_index := False\<rparr>"
      "[(''time_source'', JStr ''2023-05-01T00:00:00+00:00'')]" "''2026-11-04''"]
  by (simp add: sample_parameters_def)

section \<open>Flattening\<close>

subsection \<open>One round of the loop\<close>

lemma in_keys_iff: "k \<in> fst ` set al \<longleftrightarrow> map_of al k \<noteq> None"
  by (simp add: map_of_eq_None_iff)

lemma dict_get_Some: "map_of al k = Some v \<Longrightarrow> dict_get al k = v"
  by (simp add: dict_get_def)

lemma fold_update_keeps_key:
  "k \<in> set (map fst al) \<Longrightarrow>
   k \<in> set (map fst (fold (\<lambda>kv d. AList.update (f kv) (g kv) d) items al))"
  by (induction items arbitrary: al) (simp_all add: dom_update)

lemma map_of_fold_update_other:
  "q \<notin> h ` set items \<Longrightarrow>
   map_of (fold (\<lambda>kv d. AList.update (h kv) (g kv) d) items al) q = map_of al q"
  by (induction items arbitrary: al) (auto simp: update_conv')

lemma map_of_fold_update_same:
  "distinct (map h items) \<Longrightarrow> kv \<in> set items \<Longrightarrow>
   map_of (fold (\<lambda>kv d. AList.update (h kv) (g kv) d) items al) (h kv) = Some (g kv)"
proof (induction items arbitrary: al)
  case Nil
  then show ?case by simp
next
  case (Cons x xs)
  show ?case
  proof (cases "kv = x")
    case True
    from Cons.prems(1) have "h x \<notin> h ` set xs" by simp
    with True show ?thesis
      by (simp add: map_of_fold_update_other update_conv')
  next
    case False
    with Cons show ?thesis by simp
  qed
qed

lemma distinct_flat_keys:
  "distinct (map fst items) \<Longrightarrow> distinct (map (\<lambda>kv. field @ ''_'' @ fst kv) items)"
  by (simp add: distinct_map inj_on_def)

lemma delete_fold_update:
  "\<forall>kv \<in> set items. h kv \<noteq> f \<Longrightarrow>
   AList.delete f (fold (\<lambda>kv d. AList.update (h kv) (g kv) d) items al)
     = fold (\<lambda>kv d. AList.update (h kv) (g kv) d) items (AList.delete f al)"
  by (induction items arbitrary: al) (simp_all add: delete_update)

text \<open>
  The \<^verbatim>\<open>pop\<close> of line 120 finds its key: a round raises only what the decoder raises
  and line 115 does not catch.
\<close>

lemma flatten_field_cases:
  "flatten_field loads event_dict field =
     (if field \<in> set (map fst event_dict) then
        (case decoded loads (dict_get event_dict field) of
           Inl e \<Rightarrow> Inl e
         | Inr (JObj items) \<Rightarrow> Inr (AList.delete field
               (fold (\<lambda>kv d. AList.update (field @ ''_'' @ fst kv) (snd kv) d) items event_dict))
         | Inr _ \<Rightarrow> Inr event_dict)
      else Inr event_dict)"
  using fold_update_keeps_key [of field event_dict "\<lambda>kv. field @ ''_'' @ fst kv" snd]
  by (auto simp: flatten_field_def dict_pop_def split: sum.splits jval.splits)

lemma decoded_returns:
  "\<forall>s e. loads s = Inl e \<longrightarrow> e = ValueError \<Longrightarrow> \<exists>w. decoded loads v = Inr w"
  by (auto simp: decoded_def split: jval.splits sum.splits py_error.splits)

lemma flatten_field_returns:
  assumes "\<forall>s e. loads s = Inl e \<longrightarrow> e = ValueError"
  shows "\<exists>d. flatten_field loads event_dict field = Inr d"
proof -
  obtain w where "decoded loads (dict_get event_dict field) = Inr w"
    using decoded_returns [OF assms] by blast
  then show ?thesis by (simp add: flatten_field_cases split: jval.splits)
qed

lemma flatten_field_absent:
  "map_of event_dict field = None \<Longrightarrow> flatten_field loads event_dict field = Inr event_dict"
  by (simp add: flatten_field_cases in_keys_iff)

lemma flatten_field_mapping:
  "map_of event_dict field = Some v \<Longrightarrow> decoded loads v = Inr (JObj items) \<Longrightarrow>
   flatten_field loads event_dict field =
     Inr (AList.delete field
            (fold (\<lambda>kv d. AList.update (field @ ''_'' @ fst kv) (snd kv) d) items event_dict))"
  by (simp add: flatten_field_cases in_keys_iff dict_get_Some)


text \<open>
  A round for the field \<open>g\<close> writes the keys that begin with \<open>g_\<close> and removes \<open>g\<close>;
  every other key keeps what it had.
\<close>

lemma flatten_field_frame:
  assumes "flatten_field loads event_dict g = Inr d" "q \<noteq> g" "\<not> prefix (g @ ''_'') q"
  shows "map_of d q = map_of event_dict q"
proof -
  have notin: "q \<notin> (\<lambda>kv. g @ ''_'' @ fst kv) ` set items" for items :: dict
    using assms(3) by (auto simp: prefix_def)
  from assms(1) show ?thesis
    using assms(2) notin
    by (auto simp: flatten_field_cases map_of_fold_update_other
             split: if_splits sum.splits jval.splits)
qed

lemma flatten_field_frame_absent:
  assumes "flatten_field loads event_dict g = Inr d" "map_of event_dict q = None"
    "\<not> prefix (g @ ''_'') q"
  shows "map_of d q = None"
proof (cases "q = g")
  case True
  with assms show ?thesis by (simp add: flatten_field_absent)
next
  case False
  with assms flatten_field_frame [OF assms(1) False assms(3)] show ?thesis by simp
qed

text \<open>Two different fields write a common key only when one begins with the other and \<open>_\<close>.\<close>

lemma prefix_clash:
  assumes "prefix (g @ ''_'') (f @ ''_'' @ k)" "g \<noteq> f"
  shows "prefix (g @ ''_'') f \<or> prefix (f @ ''_'') g"
proof -
  from assms(1) obtain z where eq: "f @ ''_'' @ k = g @ ''_'' @ z"
    by (auto simp: prefix_def)
  then obtain us where
    "(f = g @ us \<and> us @ ''_'' @ k = ''_'' @ z) \<or> (f @ us = g \<and> ''_'' @ k = us @ ''_'' @ z)"
    by (auto simp: append_eq_append_conv2)
  then show ?thesis
  proof
    assume a: "f = g @ us \<and> us @ ''_'' @ k = ''_'' @ z"
    with assms(2) have "us \<noteq> []" by auto
    with a obtain us' where "us = CHR ''_'' # us'" by (cases us) auto
    with a show ?thesis by (auto simp: prefix_def)
  next
    assume a: "f @ us = g \<and> ''_'' @ k = us @ ''_'' @ z"
    with assms(2) have "us \<noteq> []" by auto
    with a obtain us' where "us = CHR ''_'' # us'" by (cases us) auto
    with a show ?thesis by (auto simp: prefix_def)
  qed
qed

text \<open>Removing an unrelated key commutes with a round, also with a round that raises.\<close>

lemma flatten_field_delete:
  assumes "g \<noteq> f" "\<not> prefix (g @ ''_'') f"
  shows "flatten_field loads (AList.delete f event_dict) g
           = map_sum id (AList.delete f) (flatten_field loads event_dict g)"
proof -
  have keys: "g \<in> set (map fst (AList.delete f event_dict)) \<longleftrightarrow> g \<in> set (map fst event_dict)"
    using assms(1) by (simp add: in_keys_iff)
  have get: "dict_get (AList.delete f event_dict) g = dict_get event_dict g"
    using assms(1) by (simp add: dict_get_def)
  have swap: "AList.delete g
        (fold (\<lambda>kv d. AList.update (g @ ''_'' @ fst kv) (snd kv) d) items
           (AList.delete f event_dict))
      = AList.delete f (AList.delete g
        (fold (\<lambda>kv d. AList.update (g @ ''_'' @ fst kv) (snd kv) d) items event_dict))"
    for items :: dict
  proof -
    have "\<forall>kv \<in> set items. g @ ''_'' @ fst kv \<noteq> f"
      using assms(2) by (auto simp: prefix_def)
    then show ?thesis
      by (simp only: delete_fold_update [symmetric] delete_twist [of f g])
  qed
  show ?thesis
    unfolding flatten_field_cases keys get
    by (simp only: swap) (simp split: sum.splits jval.splits)
qed

subsection \<open>The whole loop\<close>

lemma flatten_Cons_Inr:
  "flatten loads event_dict (g # fs) = Inr d \<Longrightarrow>
   \<exists>e. flatten_field loads event_dict g = Inr e \<and> flatten loads e fs = Inr d"
  by (simp split: sum.splits)

text \<open>When the decoder raises nothing but \<^verbatim>\<open>ValueError\<close>, the loop returns.\<close>

lemma flatten_returns:
  assumes "\<forall>s e. loads s = Inl e \<longrightarrow> e = ValueError"
  shows "\<exists>d. flatten loads event_dict fs = Inr d"
proof (induction fs arbitrary: event_dict)
  case Nil
  show ?case by simp
next
  case (Cons f fs)
  obtain d where "flatten_field loads event_dict f = Inr d"
    using flatten_field_returns [OF assms] by blast
  with Cons show ?case by simp
qed

lemma flatten_keeps_flattened:
  assumes "flatten loads event_dict fs = Inr d"
    and "map_of event_dict f = None"
    and "\<forall>kv \<in> set items. map_of event_dict (f @ ''_'' @ fst kv) = Some (snd kv)"
    and "\<forall>g \<in> set fs. g \<noteq> f \<longrightarrow> \<not> prefix (g @ ''_'') f \<and> \<not> prefix (f @ ''_'') g"
  shows "map_of d f = None \<and> (\<forall>kv \<in> set items. map_of d (f @ ''_'' @ fst kv) = Some (snd kv))"
  using assms
proof (induction fs arbitrary: event_dict)
  case Nil
  then show ?case by simp
next
  case (Cons g fs)
  from Cons.prems(1) obtain e where e: "flatten_field loads event_dict g = Inr e"
    and rest: "flatten loads e fs = Inr d"
    using flatten_Cons_Inr by blast
  have "map_of e f = None \<and> (\<forall>kv \<in> set items. map_of e (f @ ''_'' @ fst kv) = Some (snd kv))"
  proof (cases "g = f")
    case True
    with e Cons.prems(2) have "e = event_dict" by (simp add: flatten_field_absent)
    with Cons.prems show ?thesis by simp
  next
    case False
    with Cons.prems(4) have np: "\<not> prefix (g @ ''_'') f" "\<not> prefix (f @ ''_'') g" by simp_all
    have "map_of e f = map_of event_dict f"
      using flatten_field_frame [OF e] False np by simp
    moreover
    have "map_of e (f @ ''_'' @ k) = map_of event_dict (f @ ''_'' @ k)" for k
    proof (rule flatten_field_frame [OF e])
      show "f @ ''_'' @ k \<noteq> g" using np(2) by (auto simp: prefix_def)
      show "\<not> prefix (g @ ''_'') (f @ ''_'' @ k)" using prefix_clash [of g f k] False np by blast
    qed
    ultimately show ?thesis using Cons.prems by simp
  qed
  moreover
  from Cons.prems(4)
  have "\<forall>g \<in> set fs. g \<noteq> f \<longrightarrow> \<not> prefix (g @ ''_'') f \<and> \<not> prefix (f @ ''_'') g"
    by simp
  ultimately show ?case using Cons.IH [OF rest] by blast
qed

lemma flatten_mapping_field_aux:
  assumes "flatten loads event_dict fs = Inr d"
    and "f \<in> set fs"
    and "map_of event_dict f = Some v"
    and "decoded loads v = Inr (JObj items)"
    and "distinct (map fst items)"
    and "\<forall>g \<in> set fs. g \<noteq> f \<longrightarrow> \<not> prefix (g @ ''_'') f \<and> \<not> prefix (f @ ''_'') g"
  shows "map_of d f = None \<and> (\<forall>kv \<in> set items. map_of d (f @ ''_'' @ fst kv) = Some (snd kv))"
  using assms(1,2,3,6)
proof (induction fs arbitrary: event_dict)
  case Nil
  then show ?case by simp
next
  case (Cons g fs)
  from Cons.prems(1) obtain e where e: "flatten_field loads event_dict g = Inr e"
    and rest: "flatten loads e fs = Inr d"
    using flatten_Cons_Inr by blast
  from Cons.prems(4)
  have hyp: "\<forall>g \<in> set fs. g \<noteq> f \<longrightarrow> \<not> prefix (g @ ''_'') f \<and> \<not> prefix (f @ ''_'') g"
    by simp
  show ?case
  proof (cases "g = f")
    case True
    with e Cons.prems(3) assms(4)
    have e_eq: "e = AList.delete f
        (fold (\<lambda>kv d. AList.update (f @ ''_'' @ fst kv) (snd kv) d) items event_dict)"
      by (simp add: flatten_field_mapping)
    have "map_of e f = None" by (simp add: e_eq delete_conv')
    moreover
    have "\<forall>kv \<in> set items. map_of e (f @ ''_'' @ fst kv) = Some (snd kv)"
      using map_of_fold_update_same [OF distinct_flat_keys [OF assms(5)], of _ f snd event_dict]
      by (simp add: e_eq)
    ultimately show ?thesis
      using flatten_keeps_flattened [OF rest _ _ hyp] by blast
  next
    case False
    with Cons.prems(4) have np: "\<not> prefix (g @ ''_'') f" by simp
    have "map_of e f = Some v"
      using flatten_field_frame [OF e _ np] False Cons.prems(3) by simp
    moreover from False Cons.prems(2) have "f \<in> set fs" by simp
    ultimately show ?thesis using Cons.IH [OF rest _ _ hyp] by blast
  qed
qed


lemma flatten_absent:
  assumes "flatten loads event_dict fs = Inr d"
    and "map_of event_dict f = None"
    and "\<forall>g \<in> set fs. \<not> prefix (g @ ''_'') f"
  shows "map_of d f = None"
  using assms
proof (induction fs arbitrary: event_dict)
  case Nil
  then show ?case by simp
next
  case (Cons g fs)
  from Cons.prems(1) obtain e where e: "flatten_field loads event_dict g = Inr e"
    and rest: "flatten loads e fs = Inr d"
    using flatten_Cons_Inr by blast
  from Cons.prems(3) have np: "\<not> prefix (g @ ''_'') f" by simp
  have "map_of e f = None"
    by (rule flatten_field_frame_absent [OF e Cons.prems(2) np])
  with Cons.IH [OF rest] Cons.prems(3) show ?case by simp
qed

lemma flatten_empty_mapping_aux:
  assumes "f \<in> set fs"
    and "map_of event_dict f = Some v"
    and "decoded loads v = Inr (JObj [])"
    and "\<forall>g \<in> set fs. \<not> prefix (g @ ''_'') f"
  shows "flatten loads event_dict fs = flatten loads (AList.delete f event_dict) fs"
  using assms(1,2,4)
proof (induction fs arbitrary: event_dict)
  case Nil
  then show ?case by simp
next
  case (Cons g fs)
  show ?case
  proof (cases "g = f")
    case True
    have "flatten_field loads event_dict f = Inr (AList.delete f event_dict)"
      using flatten_field_mapping [OF Cons.prems(2) assms(3)] by simp
    moreover
    have "flatten_field loads (AList.delete f event_dict) f = Inr (AList.delete f event_dict)"
      by (rule flatten_field_absent) (simp add: delete_conv')
    ultimately show ?thesis using True by simp
  next
    case False
    from Cons.prems(3) have np: "\<not> prefix (g @ ''_'') f" by simp
    note comm = flatten_field_delete [OF False np, of loads event_dict]
    show ?thesis
    proof (cases "flatten_field loads event_dict g")
      case (Inl err)
      with comm show ?thesis by simp
    next
      case (Inr e)
      with comm
      have e': "flatten_field loads (AList.delete f event_dict) g = Inr (AList.delete f e)"
        by simp
      have "map_of e f = Some v"
        using flatten_field_frame [OF Inr _ np] False Cons.prems(2) by simp
      moreover from False Cons.prems(1) have "f \<in> set fs" by simp
      ultimately have "flatten loads e fs = flatten loads (AList.delete f e) fs"
        using Cons.IH Cons.prems(3) by simp
      with Inr e' show ?thesis by simp
    qed
  qed
qed

subsection \<open>Fields whose value is a mapping\<close>

text \<open>
  \<^bold>\<open>C4\<close>, as stated, fails. The fields are flattened one after the other on the same
  dictionary. With the fields \<^verbatim>\<open>a\<close> and \<^verbatim>\<open>a_b\<close>, the round for \<^verbatim>\<open>a\<close> writes its
  sub-key \<^verbatim>\<open>b\<close> over the entry \<^verbatim>\<open>a_b\<close>, whose value was a mapping: the field
  \<^verbatim>\<open>a_b\<close> is still there at the end, and no entry \<^verbatim>\<open>a_b_c\<close> was made.
\<close>

theorem flatten_mapping_field_counterexample:
  "dict_get [(''a'', JObj [(''b'', JInt 1)]), (''a_b'', JObj [(''c'', JInt 2)])] ''a_b''
     = JObj [(''c'', JInt 2)] \<and>
   flatten loads_fails [(''a'', JObj [(''b'', JInt 1)]), (''a_b'', JObj [(''c'', JInt 2)])]
     [''a'', ''a_b'']
     = Inr [(''a_b'', JInt 1)]"
  by (simp add: flatten_field_def decoded_def dict_get_def dict_pop_def)

text \<open>
  \<^bold>\<open>C4\<close>, amended. Let \<open>field\<close> be a name of the list of fields such that no other
  name of the list begins with \<open>field_\<close> and \<open>field\<close> begins with no other name of the
  list followed by \<open>_\<close>. When the event holds \<open>field\<close> and its value, decoded if it is a
  text that decodes, is a mapping, every result that \<^verbatim>\<open>flatten\<close> returns does not hold
  \<open>field\<close>, and for every sub-key it holds \<open>field_subkey\<close> with the value of the sub-key,
  whatever the event held under that name before.
\<close>

theorem flatten_mapping_field:
  assumes "field \<in> set fs"
    and "map_of event_dict field = Some v"
    and "decoded loads v = Inr (JObj items)"
    and "distinct (map fst items)"
    and "\<forall>g \<in> set fs. g \<noteq> field \<longrightarrow> \<not> prefix (g @ ''_'') field \<and> \<not> prefix (field @ ''_'') g"
    and "flatten loads event_dict fs = Inr d"
  shows "field \<notin> set (map fst d) \<and>
         (\<forall>kv \<in> set items. map_of d (field @ ''_'' @ fst kv) = Some (snd kv))"
proof -
  from flatten_mapping_field_aux [OF assms(6) assms(1-5)]
  have "map_of d field = None"
    and "\<forall>kv \<in> set items. map_of d (field @ ''_'' @ fst kv) = Some (snd kv)"
    by simp_all
  then show ?thesis
    using in_keys_iff [of field d] by auto
qed

theorem flatten_mapping_field_witness:
  "''extra'' \<in> set [''extra'', ''other''] \<and>
   map_of [(''extra_a'', JInt 0), (''extra'', JObj [(''a'', JInt 1), (''b'', JInt 2)])] ''extra''
     = Some (JObj [(''a'', JInt 1), (''b'', JInt 2)]) \<and>
   decoded loads_fails (JObj [(''a'', JInt 1), (''b'', JInt 2)])
     = Inr (JObj [(''a'', JInt 1), (''b'', JInt 2)]) \<and>
   distinct (map fst [(''a'', JInt 1), (''b'', JInt 2)]) \<and>
   flatten loads_fails
     [(''extra_a'', JInt 0), (''extra'', JObj [(''a'', JInt 1), (''b'', JInt 2)])]
     [''extra'', ''other'']
     = Inr [(''extra_a'', JInt 1), (''extra_b'', JInt 2)] \<and>
   ''extra'' \<notin> set (map fst [(''extra_a'', JInt 1), (''extra_b'', JInt 2)]) \<and>
   map_of [(''extra_a'', JInt 1), (''extra_b'', JInt 2)] (''extra'' @ ''_'' @ ''a'') = Some (JInt 1)"
proof -
  have 1: "''extra'' \<in> set [''extra'', ''other'']" by simp
  have 2: "map_of [(''extra_a'', JInt 0), (''extra'', JObj [(''a'', JInt 1), (''b'', JInt 2)])]
             ''extra'' = Some (JObj [(''a'', JInt 1), (''b'', JInt 2)])" by simp
  have 3: "decoded loads_fails (JObj [(''a'', JInt 1), (''b'', JInt 2)])
             = Inr (JObj [(''a'', JInt 1), (''b'', JInt 2)])" by (simp add: decoded_def)
  have 4: "distinct (map fst [(''a'', JInt 1), (''b'', JInt 2)])" by simp
  have 5: "\<forall>g \<in> set [''extra'', ''other''].
      g \<noteq> ''extra'' \<longrightarrow> \<not> prefix (g @ ''_'') ''extra'' \<and> \<not> prefix (''extra'' @ ''_'') g"
    by simp
  have 6: "flatten loads_fails
     [(''extra_a'', JInt 0), (''extra'', JObj [(''a'', JInt 1), (''b'', JInt 2)])]
     [''extra'', ''other'']
     = Inr [(''extra_a'', JInt 1), (''extra_b'', JInt 2)]"
    by (simp add: flatten_field_def decoded_def dict_get_def dict_pop_def)
  have 7: "''extra'' \<notin> set (map fst [(''extra_a'', JInt 1), (''extra_b'', JInt 2)]) \<and>
    map_of [(''extra_a'', JInt 1), (''extra_b'', JInt 2)] (''extra'' @ ''_'' @ ''a'') = Some (JInt 1)"
    using flatten_mapping_field [OF 1 2 3 4 5 6] by simp
  from 1 2 3 4 6 7 show ?thesis by blast
qed

subsection \<open>Fields whose value is not a mapping\<close>




subsection \<open>Fields whose value is an empty mapping\<close>

text \<open>
  \<^bold>\<open>C10\<close>, as stated, fails. With the fields \<^verbatim>\<open>a_b\<close> and \<^verbatim>\<open>a\<close>, the field
  \<^verbatim>\<open>a_b\<close> holds an empty mapping and is removed in its round; the round for
  \<^verbatim>\<open>a\<close> then writes the sub-key \<^verbatim>\<open>b\<close> under the name \<^verbatim>\<open>a_b\<close>, which is in
  the resulting document.
\<close>

theorem flatten_empty_mapping_counterexample:
  "decoded loads_fails (dict_get [(''a_b'', JObj []), (''a'', JObj [(''b'', JInt 1)])] ''a_b'')
     = Inr (JObj []) \<and>
   flatten loads_fails [(''a_b'', JObj []), (''a'', JObj [(''b'', JInt 1)])] [''a_b'', ''a'']
     = Inr [(''a_b'', JInt 1)]"
  by (simp add: flatten_field_def decoded_def dict_get_def dict_pop_def)

text \<open>
  \<^bold>\<open>C10\<close>, amended. Let \<open>field\<close> be a name of the list of fields that begins with no name
  of the list followed by \<open>_\<close>. When the event holds \<open>field\<close> and its value, decoded if it
  is a text that decodes, is the empty mapping, \<^verbatim>\<open>flatten\<close> does on the event what it does
  on the event without \<open>field\<close>, and every result that it returns does not hold \<open>field\<close>:
  nothing in it records that the field existed.
\<close>

theorem flatten_empty_mapping:
  assumes "field \<in> set fs"
    and "map_of event_dict field = Some v"
    and "decoded loads v = Inr (JObj [])"
    and "\<forall>g \<in> set fs. \<not> prefix (g @ ''_'') field"
  shows "flatten loads event_dict fs = flatten loads (AList.delete field event_dict) fs \<and>
         (\<forall>d. flatten loads event_dict fs = Inr d \<longrightarrow> field \<notin> set (map fst d))"
proof -
  have eq: "flatten loads event_dict fs = flatten loads (AList.delete field event_dict) fs"
    by (rule flatten_empty_mapping_aux [OF assms])
  have "field \<notin> set (map fst d)" if d: "flatten loads event_dict fs = Inr d" for d
  proof -
    from d eq have d': "flatten loads (AList.delete field event_dict) fs = Inr d" by simp
    have "map_of (AList.delete field event_dict) field = None"
      by (simp add: delete_conv')
    from flatten_absent [OF d' this assms(4)] show ?thesis
      using in_keys_iff [of field d] by simp
  qed
  with eq show ?thesis by blast
qed

theorem flatten_empty_mapping_witness:
  "''extra'' \<in> set [''extra''] \<and>
   map_of [(''extra'', JStr ''{}''), (''x'', JInt 1)] ''extra'' = Some (JStr ''{}'') \<and>
   decoded loads_sample (JStr ''{}'') = Inr (JObj []) \<and>
   flatten loads_sample [(''extra'', JStr ''{}''), (''x'', JInt 1)] [''extra'']
     = Inr [(''x'', JInt 1)] \<and>
   flatten loads_sample (AList.delete ''extra'' [(''extra'', JStr ''{}''), (''x'', JInt 1)])
     [''extra'']
     = Inr [(''x'', JInt 1)] \<and>
   ''extra'' \<notin> set (map fst [(''x'', JInt 1)])"
proof -
  let ?ev = "[(''extra'', JStr ''{}''), (''x'', JInt 1)]"
  have 1: "''extra'' \<in> set [''extra'']" by simp
  have 2: "map_of ?ev ''extra'' = Some (JStr ''{}'')" by simp
  have 3: "decoded loads_sample (JStr ''{}'') = Inr (JObj [])"
    by (simp add: decoded_def loads_sample_def)
  have 4: "\<forall>g \<in> set [''extra'']. \<not> prefix (g @ ''_'') ''extra''" by simp
  have 5: "flatten loads_sample ?ev [''extra''] = Inr [(''x'', JInt 1)]"
    by (simp add: flatten_field_def decoded_def dict_get_def dict_pop_def loads_sample_def)
  have 6: "flatten loads_sample (AList.delete ''extra'' ?ev) [''extra''] = Inr [(''x'', JInt 1)] \<and>
           ''extra'' \<notin> set (map fst [(''x'', JInt 1)])"
    using flatten_empty_mapping [OF 1 2 3 4] 5 by simp
  from 1 2 3 5 6 show ?thesis by blast
qed

section \<open>The pipeline\<close>

text \<open>The sample event, stage by stage.\<close>

lemma sample_flatten_sanitize:
  "\<exists>flat. flatten loads sample_event (flatten_fields sample_parameters) = Inr flat \<and>
     replace_keys (JObj flat) ''.'' (replacement_char sample_parameters) = sample_document"
  by (simp add: sample_event_def sample_parameters_def sample_document_def flatten_field_def
        decoded_def dict_get_def dict_pop_def str_replace_char)

lemma sample_process:
  "process loads es sample_parameters today sample_event =
     (case es ''intelmq-2023-05-01'' ''events'' sample_document of
        None \<Rightarrow> (None, [EsIndex ''intelmq-2023-05-01'' ''events'' sample_document, Acknowledge])
      | Some e \<Rightarrow> (Some e, [EsIndex ''intelmq-2023-05-01'' ''events'' sample_document]))"
proof -
  obtain flat where flat: "flatten loads sample_event (flatten_fields sample_parameters) = Inr flat"
    "replace_keys (JObj flat) ''.'' (replacement_char sample_parameters) = sample_document"
    using sample_flatten_sanitize by blast
  obtain dt where dt: "strptime (JStr ''2023-05-01T00:00:00+00:00'') = Inr dt"
    "date_isoformat dt = ''2023-05-01''"
    using strptime_sample by blast
  have "get_index sample_parameters
          [(''time_source'', JStr ''2023-05-01T00:00:00+00:00''), (''extra_x_y'', JInt 1)] today
        = Inr ''intelmq-2023-05-01''"
    by (simp add: get_index_def dict_get_def dt py_or_def sample_parameters_def)
  with flat show ?thesis
    unfolding process_def
    by (simp add: sample_parameters_def sample_document_def split: option.splits)
qed

text \<open>An exception of the decoder that line 115 does not catch leaves \<^verbatim>\<open>process\<close>.\<close>

lemma deep_process:
  "process loads_deep es sample_parameters today
     [(''extra'', JStr (replicate 2000 (CHR ''['')))] = (Some RecursionError, [])"
  by (simp add: process_def sample_parameters_def flatten_field_def decoded_def dict_get_def
        loads_deep_def)

text \<open>
  \<^bold>\<open>C6.\<close> \<^verbatim>\<open>process\<close> writes to the store at most once, and the acknowledgement is
  sent if and only if a write happened and returned. Either an exception leaves
  \<^verbatim>\<open>process\<close> before the write, and there is no write and no acknowledgement; or the one
  write raises, its exception leaves \<^verbatim>\<open>process\<close>, and there is no acknowledgement and no
  second write; or the one write returns, the acknowledgement follows it and nothing is raised.
  When the decoder raises nothing but \<^verbatim>\<open>ValueError\<close>, the write happens.
\<close>

theorem process_acknowledge:
  "((\<exists>e. process loads es self today event_dict = (Some e, []))
    \<or> (\<exists>index doc e.
          es index (elastic_doctype self) doc = Some e \<and>
          process loads es self today event_dict =
            (Some e, [EsIndex index (elastic_doctype self) doc]))
    \<or> (\<exists>index doc.
          es index (elastic_doctype self) doc = None \<and>
          process loads es self today event_dict =
            (None, [EsIndex index (elastic_doctype self) doc, Acknowledge])))
   \<and> ((\<forall>s e. loads s = Inl e \<longrightarrow> e = ValueError) \<longrightarrow>
        snd (process loads es self today event_dict) \<noteq> [])"
proof (cases "flatten loads event_dict (flatten_fields self)")
  case (Inl e)
  then have "process loads es self today event_dict = (Some e, [])"
    by (simp add: process_def)
  moreover have "\<not> (\<forall>s e. loads s = Inl e \<longrightarrow> e = ValueError)"
    using flatten_returns [of loads event_dict "flatten_fields self"] Inl by auto
  ultimately show ?thesis by blast
next
  case (Inr flat)
  obtain doc where doc: "replace_keys (JObj flat) ''.'' (replacement_char self) = JObj doc"
    by simp
  obtain index where index: "get_index self doc today = Inr index"
    using get_index_total by blast
  show ?thesis
  proof (cases "es index (elastic_doctype self) (JObj doc)")
    case None
    with Inr doc index
    have "process loads es self today event_dict =
            (None, [EsIndex index (elastic_doctype self) (JObj doc), Acknowledge])"
      by (simp add: process_def)
    with None show ?thesis by auto
  next
    case (Some e)
    with Inr doc index
    have "process loads es self today event_dict =
            (Some e, [EsIndex index (elastic_doctype self) (JObj doc)])"
      by (simp add: process_def)
    with Some show ?thesis by auto
  qed
qed

theorem process_acknowledge_witness:
  "process loads_fails es_accepts sample_parameters ''2026-11-04'' sample_event
     = (None, [EsIndex ''intelmq-2023-05-01'' ''events'' sample_document, Acknowledge]) \<and>
   process loads_fails es_rejects sample_parameters ''2026-11-04'' sample_event
     = (Some TransportError, [EsIndex ''intelmq-2023-05-01'' ''events'' sample_document]) \<and>
   process loads_deep es_accepts sample_parameters ''2026-11-04''
     [(''extra'', JStr (replicate 2000 (CHR ''['')))] = (Some RecursionError, []) \<and>
   snd (process loads_fails es_accepts sample_parameters ''2026-11-04'' sample_event) \<noteq> []"
proof -
  have v: "\<forall>s e. loads_fails s = Inl e \<longrightarrow> e = ValueError"
    by (simp add: loads_fails_def)
  have "snd (process loads_fails es_accepts sample_parameters ''2026-11-04'' sample_event) \<noteq> []"
    using process_acknowledge [of loads_fails es_accepts sample_parameters "''2026-11-04''"
        sample_event] v
    by blast
  then show ?thesis
    by (simp add: sample_process deep_process es_accepts_def es_rejects_def)
qed

text \<open>
  \<^bold>\<open>C2\<close>, as stated, fails: nothing removes \<^verbatim>\<open>time_source\<close> from the event, so the
  document that is submitted is not \<^verbatim>\<open>{"extra_x_y": 1}\<close>.
\<close>

theorem process_sample_counterexample:
  "EsIndex ''intelmq-2023-05-01'' ''events'' (JObj [(''extra_x_y'', JInt 1)])
     \<notin> set (snd (process loads_fails es_accepts sample_parameters ''2026-11-04'' sample_event))"
  by (simp add: sample_process es_accepts_def sample_document_def)

text \<open>
  \<^bold>\<open>C2\<close>, amended. For the event
  \<^verbatim>\<open>{"extra": {"x.y": 1}, "time_source": "2023-05-01T00:00:00+00:00"}\<close>, with rotation on,
  the base name \<^verbatim>\<open>intelmq\<close>, the field \<^verbatim>\<open>extra\<close> to flatten and the replacement
  \<^verbatim>\<open>_\<close>, \<^verbatim>\<open>process\<close> submits exactly the document
  \<^verbatim>\<open>{"time_source": "2023-05-01T00:00:00+00:00", "extra_x_y": 1}\<close> to the collection
  \<^verbatim>\<open>intelmq-2023-05-01\<close>, whatever the decoder, the store and the date of the day are.
\<close>

theorem process_sample:
  "process loads es sample_parameters today
     [(''extra'', JObj [(''x.y'', JInt 1)]),
      (''time_source'', JStr ''2023-05-01T00:00:00+00:00'')] =
     (case es ''intelmq-2023-05-01'' ''events''
             (JObj [(''time_source'', JStr ''2023-05-01T00:00:00+00:00''),
                    (''extra_x_y'', JInt 1)]) of
        None \<Rightarrow>
          (None,
           [EsIndex ''intelmq-2023-05-01'' ''events''
              (JObj [(''time_source'', JStr ''2023-05-01T00:00:00+00:00''),
                     (''extra_x_y'', JInt 1)]),
            Acknowledge])
      | Some e \<Rightarrow>
          (Some e,
           [EsIndex ''intelmq-2023-05-01'' ''events''
              (JObj [(''time_source'', JStr ''2023-05-01T00:00:00+00:00''),
                     (''extra_x_y'', JInt 1)])]))"
  by (rule sample_process [of loads es today, unfolded sample_document_def sample_event_def])

theorem process_sample_witness:
  "process loads_fails es_accepts sample_parameters ''2026-11-04'' sample_event
     = (None,
        [EsIndex ''intelmq-2023-05-01'' ''events''
           (JObj [(''time_source'', JStr ''2023-05-01T00:00:00+00:00''), (''extra_x_y'', JInt 1)]),
         Acknowledge])"
  using process_sample [of loads_fails es_accepts "''2026-11-04''"]
  by (simp add: sample_event_def es_accepts_def)

subsection \<open>Index resolution after sanitization\<close>









end
